theory Spec2Isabelle
  imports Main "HOL-Library.Word"
begin

unbundle bit_operations_syntax

section \<open>Errors, the target address and the bus objects\<close>

text \<open>
  A Go \<^verbatim>\<open>error\<close> is a value: \<open>Err m\<close> is an error made by a library, and
  \<open>Wrap p e\<close> is \<^verbatim>\<open>fmt.Errorf(p + ": %w", e)\<close>. A function returning only an
  \<^verbatim>\<open>error\<close> returns an \<open>err option\<close> (\<open>None\<close> is \<^verbatim>\<open>nil\<close>), one returning a
  value and an error returns a sum (\<open>Inl\<close> the error).
\<close>

datatype err = Err string | Wrap string err

type_synonym byte = "8 word"

text \<open>\<^verbatim>\<open>bluetooth.MAC\<close> is \<^verbatim>\<open>[6]byte\<close>, little endian: the fields are the indices 0 to 5.\<close>

datatype MAC = MAC byte byte byte byte byte byte

text \<open>
  Modelled from the spec: the \<^verbatim>\<open>String\<close> method of \<^verbatim>\<open>bluetooth.MAC\<close>, which belongs to
  the imported Bluetooth library and is not under src/. The canonical form of a
  PeerAddress is six colon-separated hex octets, most significant octet first, with
  upper-case hex letters as in \<^verbatim>\<open>AA:BB:CC:DD:EE:FF\<close>.
\<close>

definition hexDigit :: "byte \<Rightarrow> char" where
  "hexDigit n = ''0123456789ABCDEF'' ! unat n"

definition hexOctet :: "byte \<Rightarrow> string" where
  "hexOctet c = [hexDigit (drop_bit 4 c), hexDigit (c AND 15)]"

fun MAC_String :: "MAC \<Rightarrow> string" where
  "MAC_String (MAC b0 b1 b2 b3 b4 b5) =
     hexOctet b5 @ '':'' @ hexOctet b4 @ '':'' @ hexOctet b3 @ '':'' @
     hexOctet b2 @ '':'' @ hexOctet b1 @ '':'' @ hexOctet b0"

text \<open>
  Modelled from the spec: the equality the spec gives to PeerAddress, a case-insensitive
  comparison of the two strings. \<open>to_upper\<close> maps an ASCII lower-case letter to its
  upper-case letter and leaves every other character as it is.
\<close>

definition to_upper :: "char \<Rightarrow> char" where
  "to_upper c =
     (let n = (of_char c :: nat) in if 97 \<le> n \<and> n \<le> 122 then char_of (n - 32) else c)"

definition same_address :: "string \<Rightarrow> string \<Rightarrow> bool" where
  "same_address a b = (map to_upper a = map to_upper b)"

text \<open>
  A \<^verbatim>\<open>device.Device1\<close> is a proxy of a bus object. Its methods are calls to the
  Bluetooth daemon; the record holds what each call answers when the program makes it.
\<close>

record Device1 =
  GetAddress :: "err + string"
  GetPaired :: "err + bool"
  Pair :: "err option"
  Connect :: "err option"

text \<open>
  One value received from the channel of \<^verbatim>\<open>api.Discover\<close>: the object path, and what
  \<^verbatim>\<open>device.NewDevice1\<close> answers for that path when the loop asks.
\<close>

record DeviceDiscovered =
  Path :: string
  NewDevice1 :: "err + Device1"

record Adapter1 =
  GetAdapterID :: "err + string"

text \<open>
  \<^verbatim>\<open>Bctl\<close>. The command-line flags play no part in the functions below. The channel
  \<^verbatim>\<open>discoveryDone\<close> is the channel \<^verbatim>\<open>done\<close> of \<^verbatim>\<open>Discover\<close>; whether it is closed
  is read from the trace of the discovery.
\<close>

record Bctl =
  deviceMAC :: MAC
  adapter :: Adapter1

section \<open>Effects\<close>

datatype level = InfoLevel | TraceLevel

text \<open>
  Everything the program does to the outside is an action of a trace, in the order it
  happens. \<open>Log l m e fs\<close> is a log line of level \<open>l\<close> with message \<open>m\<close>, the error
  of \<^verbatim>\<open>WithError\<close> and the fields of \<^verbatim>\<open>WithField\<close>. \<open>Stop\<close> is one execution of the
  cancel function that \<^verbatim>\<open>api.Discover\<close> returned, \<open>CloseDone\<close> is \<^verbatim>\<open>close(done)\<close>,
  \<open>Recv\<close> is one receive from the channel of discovered devices. \<open>Selected c\<close> is
  a \<^verbatim>\<open>select\<close> of \<^verbatim>\<open>Connect\<close> that proceeds with the case of channel \<open>c\<close>,
  \<open>Attempt a\<close> is one call \<^verbatim>\<open>cli.connect(a)\<close>, and the \<open>Call\<close> actions are the
  requests an attempt sends to the device.
\<close>

datatype chan = CtxDone | TickC | OnceC | DiscoveryDone

datatype action =
    Log level string "err option" "(string \<times> nat) list"
  | Recv DeviceDiscovered
  | Stop
  | CloseDone
  | Selected chan
  | Attempt string
  | CallNewDevice string string
  | CallGetPaired
  | CallPair
  | CallConnect

section \<open>Discover\<close>

text \<open>
  The state shared by the goroutine of \<^verbatim>\<open>Discover\<close> and its caller: the flag of the
  \<^verbatim>\<open>sync.Once\<close> inside \<^verbatim>\<open>cancelOnce\<close>, the control point of the goroutine, and the
  trace. The goroutine is in its \<^verbatim>\<open>range\<close> loop (\<open>Ranging\<close>), or it is blocked for
  ever inside its deferred \<^verbatim>\<open>cancelOnce()\<close> (\<open>Stuck\<close>), or it has returned
  (\<open>Finished\<close>).
\<close>

datatype gstate = Ranging | Stuck | Finished

record scan_state =
  once_done :: bool
  gor :: gstate
  trace :: "action list"

text \<open>
  The state in which \<^verbatim>\<open>Discover\<close> leaves the goroutine it has spawned: the goroutine
  has logged that discovery started and is at its first receive; the
  \<^verbatim>\<open>sync.Once\<close> is unused.
\<close>

definition fresh :: scan_state where
  "fresh =
     \<lparr>once_done = False, gor = Ranging,
      trace = [Log InfoLevel ''discovery started'' None []]\<rparr>"

text \<open>
  \<^verbatim>\<open>cancelOnce\<close> is \<^verbatim>\<open>once.Do(cancel)\<close>. \<^verbatim>\<open>sync.Once\<close> serialises its callers, so
  one invocation is one atomic step on the shared state. \<open>once_done\<close> tells that a
  call has entered \<^verbatim>\<open>cancel\<close>: no later call runs it again, and a later call does not
  return before the first one has. This is the step of a call that returns: a call of
  the caller of \<^verbatim>\<open>Discover\<close>, which runs the stop while the goroutine still receives
  from the channel, or any call that finds the once-guard used.
\<close>

definition cancelOnce :: "scan_state \<Rightarrow> scan_state" where
  "cancelOnce s =
     (if once_done s then s else s\<lparr>once_done := True, trace := trace s @ [Stop]\<rparr>)"

text \<open>
  The deferred calls of the goroutine run last in, first out: \<^verbatim>\<open>cancelOnce()\<close>, then
  \<^verbatim>\<open>close(done)\<close>, which is reached only when \<^verbatim>\<open>cancelOnce()\<close> has returned. The
  stop function belongs to the imported library. \<open>returns\<close> tells whether it
  returns when this call is the one that runs it; when it does not,
  \<^verbatim>\<open>once.Do\<close> never returns and the goroutine stays inside it.
\<close>

definition deferred :: "bool \<Rightarrow> scan_state \<Rightarrow> scan_state" where
  "deferred returns s =
     (let s1 = cancelOnce s in
      if once_done s \<or> returns
      then s1\<lparr>gor := Finished, trace := trace s1 @ [CloseDone]\<rparr>
      else s1\<lparr>gor := Stuck\<rparr>)"

text \<open>
  The body of the \<^verbatim>\<open>range\<close> loop for one received device: the log lines it writes,
  and whether it returns from the goroutine (\<open>True\<close>) or goes on to the next receive.
\<close>

definition loop_body :: "Bctl \<Rightarrow> DeviceDiscovered \<Rightarrow> action list \<times> bool" where
  "loop_body cli gotDev =
     (let scanned = Log TraceLevel (''scanned device'' @ Path gotDev) None [] in
      case NewDevice1 gotDev of
        Inl e \<Rightarrow> ([scanned, Log TraceLevel ''create device by dbus path'' (Some e) []], False)
      | Inr d \<Rightarrow>
          (case GetAddress d of
             Inl e \<Rightarrow> ([scanned, Log TraceLevel ''get device address failed'' (Some e) []], False)
           | Inr deviceAddr \<Rightarrow>
               if deviceAddr = MAC_String (deviceMAC cli)
               then ([scanned, Log InfoLevel ''expected device found'' None []], True)
               else ([scanned], False)))"

text \<open>
  A run of the discovery is a schedule: the channel delivers a device to the goroutine
  (\<open>Ev\<close>), the channel is closed (\<open>ChanClosed\<close>), or the caller invokes the cancel
  capability that \<^verbatim>\<open>Discover\<close> returned (\<open>CallerCancel\<close>), in any order. A goroutine
  that has left its loop receives nothing more. \<open>delivered\<close> are the devices that
  the library has for the channel until the channel is closed.
\<close>

datatype item = Ev DeviceDiscovered | ChanClosed | CallerCancel

fun delivered :: "item list \<Rightarrow> DeviceDiscovered list" where
  "delivered [] = []"
| "delivered (Ev d # is) = d # delivered is"
| "delivered (ChanClosed # is) = []"
| "delivered (CallerCancel # is) = delivered is"

text \<open>
  One received device. When the loop returns on a match, the deferred
  \<^verbatim>\<open>cancelOnce()\<close> runs while nothing receives from the channel any more.
\<close>

definition receive :: "bool \<Rightarrow> Bctl \<Rightarrow> DeviceDiscovered \<Rightarrow> scan_state \<Rightarrow> scan_state" where
  "receive returns cli gotDev s =
     (let (logs, ret) = loop_body cli gotDev;
          s1 = s\<lparr>trace := trace s @ Recv gotDev # logs\<rparr>
      in if ret then deferred returns s1 else s1)"

text \<open>
  One item of the schedule. The channel is closed by the library when its stop function
  has run; a stop that the goroutine runs after the channel was closed returns.
\<close>

fun step :: "bool \<Rightarrow> Bctl \<Rightarrow> item \<Rightarrow> scan_state \<Rightarrow> scan_state" where
  "step returns cli CallerCancel s = cancelOnce s"
| "step returns cli (Ev gotDev) s =
     (if gor s = Ranging then receive returns cli gotDev s else s)"
| "step returns cli ChanClosed s = (if gor s = Ranging then deferred True s else s)"

text \<open>
  Whether the stop function returns when the goroutine runs it after a match is decided
  by the library, from the devices \<open>pending\<close> that it still has for the channel that
  nothing receives from any more: \<open>lib pending\<close>. With no device pending there is
  nothing for the stop to wait for, and it returns.
\<close>

definition stop_returns :: "(DeviceDiscovered list \<Rightarrow> bool) \<Rightarrow> DeviceDiscovered list \<Rightarrow> bool" where
  "stop_returns lib pending = (pending = [] \<or> lib pending)"

fun run ::
  "(DeviceDiscovered list \<Rightarrow> bool) \<Rightarrow> Bctl \<Rightarrow> item list \<Rightarrow> scan_state \<Rightarrow> scan_state" where
  "run lib cli [] s = s"
| "run lib cli (i # is) s = run lib cli is (step (stop_returns lib (delivered is)) cli i s)"

text \<open>
  \<^verbatim>\<open>Discover\<close>: the error of \<^verbatim>\<open>api.Discover\<close> is returned wrapped and nothing is
  started; otherwise the goroutine is spawned on a fresh \<^verbatim>\<open>sync.Once\<close> and the
  schedule runs.
\<close>

definition Bctl_Discover ::
  "(DeviceDiscovered list \<Rightarrow> bool) \<Rightarrow> Bctl \<Rightarrow> err option \<Rightarrow> item list \<Rightarrow> err + scan_state" where
  "Bctl_Discover lib cli api_err sched =
     (case api_err of
        Some e \<Rightarrow> Inl (Wrap ''discover devices'' e)
      | None \<Rightarrow> Inr (run lib cli sched fresh))"

text \<open>Observations on a schedule and on a trace.\<close>

definition resolved_address :: "DeviceDiscovered \<Rightarrow> string option" where
  "resolved_address gotDev =
     (case NewDevice1 gotDev of
        Inl e \<Rightarrow> None
      | Inr d \<Rightarrow> (case GetAddress d of Inl e \<Rightarrow> None | Inr a \<Rightarrow> Some a))"

text \<open>An event contains the target address when its device resolves to the canonical
  string of the target.\<close>

definition is_target :: "Bctl \<Rightarrow> DeviceDiscovered \<Rightarrow> bool" where
  "is_target cli gotDev = (resolved_address gotDev = Some (MAC_String (deviceMAC cli)))"

fun received :: "action list \<Rightarrow> DeviceDiscovered list" where
  "received [] = []"
| "received (Recv d # as) = d # received as"
| "received (a # as) = received as"

definition stops :: "scan_state \<Rightarrow> nat" where
  "stops s = count_list (trace s) Stop"

definition closes :: "scan_state \<Rightarrow> nat" where
  "closes s = count_list (trace s) CloseDone"

text \<open>Invariants of a run, used in the proofs below.\<close>

definition only_logs :: "action list \<Rightarrow> bool" where
  "only_logs as = (\<forall>a \<in> set as. \<exists>l m e fs. a = Log l m e fs)"

definition gate_inv :: "scan_state \<Rightarrow> bool" where
  "gate_inv s =
     (stops s = (if once_done s then 1 else 0) \<and>
      closes s = (if gor s = Finished then 1 else 0) \<and>
      (gor s \<noteq> Ranging \<longrightarrow> once_done s))"

fun guarded :: "bool \<Rightarrow> action list \<Rightarrow> bool" where
  "guarded seen [] = True"
| "guarded seen (Stop # as) = guarded True as"
| "guarded seen (CloseDone # as) = (seen \<and> guarded seen as)"
| "guarded seen (a # as) = guarded seen as"

definition order_inv :: "scan_state \<Rightarrow> bool" where
  "order_inv s = (guarded False (trace s) \<and> (once_done s \<longrightarrow> Stop \<in> set (trace s)))"

section \<open>Select, Wait and Connect\<close>

text \<open>
  What the runtime presents to one evaluation of a \<^verbatim>\<open>select\<close>: whether the context's
  \<^verbatim>\<open>Done\<close> channel is closed, whether the ticker has a tick waiting, the runtime's
  choice among several ready cases, and, for a \<^verbatim>\<open>select\<close> that finds no case ready
  and blocks, the channel that becomes ready first (\<open>None\<close>: none ever does).
\<close>

record select_env =
  ctx_done :: bool
  tick_ready :: bool
  pick :: nat
  arrival :: "chan option"

text \<open>Go's \<^verbatim>\<open>select\<close>: one of the ready cases, chosen by the runtime; with no case
  ready it blocks until a channel of one of its cases becomes ready.\<close>

definition select_go :: "chan list \<Rightarrow> nat \<Rightarrow> chan option \<Rightarrow> chan option" where
  "select_go ready n arr = (if ready = [] then arr else Some (ready ! (n mod length ready)))"

text \<open>
  The result of a call that may wait: it returned (an error or \<^verbatim>\<open>nil\<close>), it is
  blocked in a \<^verbatim>\<open>select\<close> for ever, or the schedule given to the model ended before
  the call returned.
\<close>

datatype outcome = Returned "err option" | Blocked | Pending

text \<open>
  \<^verbatim>\<open>Wait\<close>: a \<^verbatim>\<open>select\<close> on the context and on \<^verbatim>\<open>discoveryDone\<close>, which is closed
  once the trace of the discovery holds \<open>CloseDone\<close>. \<open>cerr\<close> is what \<^verbatim>\<open>ctx.Err()\<close>
  returns after the cancellation. The second component is the state of the discovery
  as \<^verbatim>\<open>Wait\<close> leaves it.
\<close>

definition Bctl_Wait :: "err \<Rightarrow> select_env \<Rightarrow> scan_state \<Rightarrow> outcome \<times> scan_state" where
  "Bctl_Wait cerr e s =
     (case select_go
             ((if ctx_done e then [CtxDone] else []) @
              (if CloseDone \<in> set (trace s) then [DiscoveryDone] else []))
             (pick e) (arrival e) of
        Some CtxDone \<Rightarrow> (Returned (Some cerr), s)
      | Some DiscoveryDone \<Rightarrow> (Returned None, s)
      | _ \<Rightarrow> (Blocked, s))"

text \<open>
  \<^verbatim>\<open>connect\<close>: one attempt. The argument \<open>nd\<close> is what \<^verbatim>\<open>device.NewDevice\<close> answers
  for the adapter and the target address. The result is the requests and log lines of
  the attempt, in order, and the error it returns.
\<close>

definition Bctl_connect :: "Bctl \<Rightarrow> string \<Rightarrow> err + Device1 \<Rightarrow> action list \<times> err option" where
  "Bctl_connect cli adapterID nd =
     (let t0 = [CallNewDevice adapterID (MAC_String (deviceMAC cli))] in
      case nd of
        Inl e \<Rightarrow> (t0, Some (Wrap ''get device mac'' e))
      | Inr d \<Rightarrow>
          (let t1 = t0 @ [CallGetPaired] in
           case GetPaired d of
             Inl e \<Rightarrow> (t1, Some (Wrap ''check already paired'' e))
           | Inr paired \<Rightarrow>
               (let (t2, perr) = (if \<not> paired then (t1 @ [CallPair], Pair d) else (t1, None)) in
                case perr of
                  Some e \<Rightarrow> (t2, Some (Wrap ''pair with device'' e))
                | None \<Rightarrow>
                    (let t3 = t2 @ [CallConnect] in
                     case Connect d of
                       Some e \<Rightarrow> (t3, Some (Wrap ''connect to device'' e))
                     | None \<Rightarrow>
                         (t3 @ [Log InfoLevel ''device connected successfully'' None []],
                          None)))))"

text \<open>\<^verbatim>\<open>3 * time.Second\<close>, a \<^verbatim>\<open>time.Duration\<close>: nanoseconds.\<close>

definition retryInterval :: nat where
  "retryInterval = 3 * 1000000000"

text \<open>
  The loop of \<^verbatim>\<open>Connect\<close>. \<open>tok\<close> tells whether the buffered channel \<^verbatim>\<open>once\<close> still
  holds its token; \<open>es\<close> gives one environment for each evaluation of the
  \<^verbatim>\<open>select\<close>, \<open>ds\<close> one answer of \<^verbatim>\<open>device.NewDevice\<close> for each attempt. The cases
  of the \<^verbatim>\<open>select\<close> are in the order of the source: \<^verbatim>\<open>ctx.Done()\<close>, \<^verbatim>\<open>tick.C\<close>,
  \<^verbatim>\<open>once\<close>.
\<close>

fun connect_loop ::
  "Bctl \<Rightarrow> err \<Rightarrow> string \<Rightarrow> bool \<Rightarrow> select_env list \<Rightarrow> (err + Device1) list \<Rightarrow>
   action list \<Rightarrow> outcome \<times> action list" where
  "connect_loop cli cerr adapterID tok [] ds tr = (Pending, tr)"
| "connect_loop cli cerr adapterID tok (e # es) ds tr =
     (case select_go
             ((if ctx_done e then [CtxDone] else []) @
              (if tick_ready e then [TickC] else []) @
              (if tok then [OnceC] else []))
             (pick e) (arrival e) of
        None \<Rightarrow> (Blocked, tr)
      | Some DiscoveryDone \<Rightarrow> (Blocked, tr)
      | Some CtxDone \<Rightarrow> (Returned (Some cerr), tr @ [Selected CtxDone])
      | Some c \<Rightarrow>
          (case ds of
             [] \<Rightarrow> (Pending, tr @ [Selected c])
           | nd # ds' \<Rightarrow>
               (let (acts, r) = Bctl_connect cli adapterID nd;
                    tr' = tr @ [Selected c, Attempt adapterID] @ acts
                in case r of
                     Some er \<Rightarrow>
                       connect_loop cli cerr adapterID (tok \<and> c \<noteq> OnceC) es ds'
                         (tr' @ [Log InfoLevel ''try to connect'' (Some er)
                                   [(''retry'', retryInterval)]])
                   | None \<Rightarrow> (Returned None, tr'))))"

text \<open>
  \<^verbatim>\<open>Connect\<close>: the ticker is created and the token is put into \<^verbatim>\<open>once\<close>; the
  identifier of the adapter is asked for, and its error is returned wrapped; then the
  loop runs. The ticker is the field \<open>tick_ready\<close> of the environments.
\<close>

definition Bctl_Connect ::
  "Bctl \<Rightarrow> err \<Rightarrow> select_env list \<Rightarrow> (err + Device1) list \<Rightarrow> outcome \<times> action list" where
  "Bctl_Connect cli cerr es ds =
     (case GetAdapterID (adapter cli) of
        Inl e \<Rightarrow> (Returned (Some (Wrap ''get adapter id'' e)), [])
      | Inr adapterID \<Rightarrow> connect_loop cli cerr adapterID True es ds [])"

text \<open>Observations on the trace of \<^verbatim>\<open>Connect\<close>.\<close>

fun attempts :: "action list \<Rightarrow> nat" where
  "attempts [] = 0"
| "attempts (Attempt a # as) = Suc (attempts as)"
| "attempts (a # as) = attempts as"

fun retry_messages :: "action list \<Rightarrow> nat" where
  "retry_messages [] = 0"
| "retry_messages (Log l m e fs # as) =
     (if m = ''try to connect'' then Suc (retry_messages as) else retry_messages as)"
| "retry_messages (a # as) = retry_messages as"

fun calls :: "action list \<Rightarrow> action list" where
  "calls [] = []"
| "calls (Log l m e fs # as) = calls as"
| "calls (a # as) = a # calls as"

text \<open>An environment in which the \<^verbatim>\<open>select\<close> of \<^verbatim>\<open>Connect\<close> gets a tick and the
  context is not cancelled.\<close>

definition ticking :: "select_env \<Rightarrow> bool" where
  "ticking e = (\<not> ctx_done e \<and> (tick_ready e \<or> arrival e = Some TickC))"

section \<open>Sample values\<close>

text \<open>The target \<^verbatim>\<open>AA:BB:CC:DD:EE:FF\<close> on the adapter \<^verbatim>\<open>hci0\<close>, and peers that
  resolve to a given address.\<close>

definition sample_cli :: Bctl where
  "sample_cli =
     \<lparr>deviceMAC = MAC 0xFF 0xEE 0xDD 0xCC 0xBB 0xAA, adapter = \<lparr>GetAdapterID = Inr ''hci0''\<rparr>\<rparr>"

definition sample_device :: "string \<Rightarrow> Device1" where
  "sample_device a = \<lparr>GetAddress = Inr a, GetPaired = Inr False, Pair = None, Connect = None\<rparr>"

definition sample_peer :: "string \<Rightarrow> DeviceDiscovered" where
  "sample_peer a = \<lparr>Path = ''/org/bluez/hci0/dev'', NewDevice1 = Inr (sample_device a)\<rparr>"

definition broken_peer :: DeviceDiscovered where
  "broken_peer = \<lparr>Path = ''/org/bluez/hci0/gone'', NewDevice1 = Inl (Err ''no such object'')\<rparr>"

definition match_schedule :: "item list" where
  "match_schedule =
     [Ev (sample_peer ''11:22:33:44:55:66''), CallerCancel,
      Ev (sample_peer ''77:88:99:AA:BB:CC''), Ev (sample_peer ''AA:BB:CC:DD:EE:FF''),
      Ev (sample_peer ''00:00:00:00:00:01''), ChanClosed]"

definition closed_schedule :: "item list" where
  "closed_schedule =
     [Ev (sample_peer ''11:22:33:44:55:66''), Ev broken_peer,
      Ev (sample_peer ''77:88:99:AA:BB:CC''), ChanClosed, CallerCancel]"

definition cancel_schedule :: "item list" where
  "cancel_schedule =
     [CallerCancel, Ev (sample_peer ''11:22:33:44:55:66''), CallerCancel, ChanClosed,
      CallerCancel]"

text \<open>A target followed at once by two more devices, and a library whose stop function
  does not return while two or more devices are pending.\<close>

definition pending_schedule :: "item list" where
  "pending_schedule =
     [Ev (sample_peer ''AA:BB:CC:DD:EE:FF''), Ev (sample_peer ''11:22:33:44:55:66''),
      Ev (sample_peer ''77:88:99:AA:BB:CC'')]"

definition returns_below_two :: "DeviceDiscovered list \<Rightarrow> bool" where
  "returns_below_two pending = (length pending < 2)"

definition quiet_env :: select_env where
  "quiet_env = \<lparr>ctx_done = False, tick_ready = False, pick = 0, arrival = None\<rparr>"

definition tick_env :: select_env where
  "tick_env = \<lparr>ctx_done = False, tick_ready = False, pick = 0, arrival = Some TickC\<rparr>"

definition cancelled_env :: "nat \<Rightarrow> select_env" where
  "cancelled_env n = \<lparr>ctx_done = True, tick_ready = False, pick = n, arrival = None\<rparr>"

definition busy_device :: Device1 where
  "busy_device =
     \<lparr>GetAddress = Inr ''AA:BB:CC:DD:EE:FF'', GetPaired = Inl (Err ''adapter busy''),
      Pair = None, Connect = None\<rparr>"

definition unreachable_device :: Device1 where
  "unreachable_device =
     \<lparr>GetAddress = Inr ''AA:BB:CC:DD:EE:FF'', GetPaired = Inr False,
      Pair = None, Connect = Some (Err ''peripheral not reachable'')\<rparr>"

definition paired_device :: Device1 where
  "paired_device =
     \<lparr>GetAddress = Inr ''AA:BB:CC:DD:EE:FF'', GetPaired = Inr True,
      Pair = Some (Err ''already paired''), Connect = None\<rparr>"

definition canceled :: err where
  "canceled = Err ''context canceled''"

section \<open>Lemmas about the discovery\<close>

lemma Discover_start_error:
  "Bctl_Discover lib cli (Some e) sched = Inl (Wrap ''discover devices'' e)"
  by (simp add: Bctl_Discover_def)

lemma Discover_started: "Bctl_Discover lib cli None sched = Inr (run lib cli sched fresh)"
  by (simp add: Bctl_Discover_def)

lemma loop_body_target: "snd (loop_body cli d) = is_target cli d"
  by (simp add: loop_body_def is_target_def resolved_address_def Let_def split: sum.splits)

lemma loop_body_logs: "only_logs (fst (loop_body cli d))"
  by (simp add: loop_body_def only_logs_def Let_def split: sum.splits)

lemma received_append: "received (xs @ ys) = received xs @ received ys"
  by (induction xs rule: received.induct) auto

lemma received_logs: "only_logs as \<Longrightarrow> received as = []"
  by (induction as rule: received.induct) (auto simp: only_logs_def)

lemma count_logs: "only_logs as \<Longrightarrow> count_list as Stop = 0 \<and> count_list as CloseDone = 0"
  by (induction as) (auto simp: only_logs_def)

lemma gate_inv_fresh: "gate_inv fresh"
  by (simp add: gate_inv_def fresh_def stops_def closes_def)

lemma gate_inv_cancelOnce: "gate_inv s \<Longrightarrow> gate_inv (cancelOnce s)"
  by (auto simp: gate_inv_def cancelOnce_def stops_def closes_def)

lemma gate_inv_deferred: "gate_inv s \<Longrightarrow> gor s = Ranging \<Longrightarrow> gate_inv (deferred r s)"
  by (auto simp: gate_inv_def deferred_def cancelOnce_def stops_def closes_def Let_def)

lemma gate_inv_logs:
  "gate_inv s \<Longrightarrow> only_logs as \<Longrightarrow> gate_inv (s\<lparr>trace := trace s @ Recv d # as\<rparr>)"
  by (simp add: gate_inv_def stops_def closes_def count_logs)

lemma gate_inv_receive: "gate_inv s \<Longrightarrow> gor s = Ranging \<Longrightarrow> gate_inv (receive r cli d s)"
  using loop_body_logs[of cli d]
  by (auto simp: receive_def Let_def split: prod.splits
      intro!: gate_inv_deferred gate_inv_logs)

lemma gate_inv_step: "gate_inv s \<Longrightarrow> gate_inv (step r cli i s)"
  by (cases i) (auto intro!: gate_inv_cancelOnce gate_inv_receive gate_inv_deferred)

lemma gate_inv_run: "gate_inv s \<Longrightarrow> gate_inv (run lib cli sched s)"
  by (induction sched arbitrary: s) (auto intro: gate_inv_step)

lemma gate_inv_from_fresh: "gate_inv (run lib cli sched fresh)"
  by (rule gate_inv_run[OF gate_inv_fresh])

text \<open>A goroutine that has left its loop stays where it is and receives nothing more.\<close>

lemma step_left_loop:
  "gor s \<noteq> Ranging \<Longrightarrow>
     gor (step r cli i s) = gor s \<and> received (trace (step r cli i s)) = received (trace s)"
  by (cases i) (auto simp: cancelOnce_def received_append)

lemma run_left_loop:
  "gor s \<noteq> Ranging \<Longrightarrow>
     gor (run lib cli sched s) = gor s \<and>
     received (trace (run lib cli sched s)) = received (trace s)"
proof (induction sched arbitrary: s)
  case Nil
  then show ?case by simp
next
  case (Cons i sched)
  from step_left_loop[OF Cons.prems, of "stop_returns lib (delivered sched)" cli i]
    Cons.IH[of "step (stop_returns lib (delivered sched)) cli i s"] Cons.prems
  show ?case by simp
qed

lemma received_cancelOnce: "received (trace (cancelOnce s)) = received (trace s)"
  by (simp add: cancelOnce_def received_append)

lemma gor_cancelOnce: "gor (cancelOnce s) = gor s"
  by (simp add: cancelOnce_def)

lemma once_done_cancelOnce: "once_done (cancelOnce s)"
  by (simp add: cancelOnce_def)

lemma receive_target:
  "is_target cli d \<Longrightarrow>
     gor (receive r cli d s) = (if once_done s \<or> r then Finished else Stuck) \<and>
     received (trace (receive r cli d s)) = received (trace s) @ [d]"
  using loop_body_logs[of cli d] loop_body_target[of cli d]
  by (auto simp: receive_def Let_def deferred_def received_append
      received_cancelOnce received_logs split: prod.splits)

lemma receive_other:
  "\<not> is_target cli d \<Longrightarrow>
     gor (receive r cli d s) = gor s \<and> once_done (receive r cli d s) = once_done s \<and>
     received (trace (receive r cli d s)) = received (trace s) @ [d]"
  using loop_body_logs[of cli d] loop_body_target[of cli d]
  by (auto simp: receive_def Let_def received_append received_logs split: prod.splits)

lemma run_until_target:
  assumes "gor s = Ranging" and "filter (is_target cli) (delivered sched) \<noteq> []"
  shows "received (trace (run lib cli sched s)) =
           received (trace s) @ takeWhile (\<lambda>d. \<not> is_target cli d) (delivered sched) @
             [hd (filter (is_target cli) (delivered sched))] \<and>
         gor (run lib cli sched s) \<noteq> Ranging \<and>
         (once_done s \<or>
          stop_returns lib (tl (dropWhile (\<lambda>d. \<not> is_target cli d) (delivered sched))) \<longrightarrow>
            gor (run lib cli sched s) = Finished) \<and>
         (\<not> once_done s \<and> CallerCancel \<notin> set sched \<and>
          \<not> stop_returns lib (tl (dropWhile (\<lambda>d. \<not> is_target cli d) (delivered sched))) \<longrightarrow>
            gor (run lib cli sched s) = Stuck)"
  using assms
proof (induction sched arbitrary: s)
  case Nil
  then show ?case by simp
next
  case (Cons i sched)
  let ?r = "stop_returns lib (delivered sched)"
  show ?case
  proof (cases i)
    case (Ev d)
    show ?thesis
    proof (cases "is_target cli d")
      case True
      have "gor (receive ?r cli d s) \<noteq> Ranging"
        using receive_target[OF True, of ?r s] by simp
      from run_left_loop[OF this, of lib cli sched] receive_target[OF True, of ?r s]
        Ev True Cons.prems(1)
      show ?thesis by (cases "once_done s \<or> ?r") auto
    next
      case False
      from receive_other[OF False, of ?r s] Cons.prems(1)
      have g: "gor (receive ?r cli d s) = Ranging" by simp
      from Ev False Cons.prems(2)
      have f: "filter (is_target cli) (delivered sched) \<noteq> []" by simp
      from Cons.IH[OF g f] receive_other[OF False, of ?r s] Ev False Cons.prems(1)
      show ?thesis by simp
    qed
  next
    case ChanClosed
    with Cons.prems show ?thesis by simp
  next
    case CallerCancel
    from Cons.prems(1) have g: "gor (cancelOnce s) = Ranging" by (simp add: gor_cancelOnce)
    from CallerCancel Cons.prems(2)
    have f: "filter (is_target cli) (delivered sched) \<noteq> []" by simp
    from Cons.IH[OF g f] CallerCancel
    show ?thesis by (simp add: received_cancelOnce once_done_cancelOnce)
  qed
qed

lemma run_until_closed:
  "gor s = Ranging \<Longrightarrow> filter (is_target cli) (delivered sched) = [] \<Longrightarrow>
     ChanClosed \<in> set sched \<Longrightarrow>
     gor (run lib cli sched s) = Finished \<and>
     received (trace (run lib cli sched s)) = received (trace s) @ delivered sched"
proof (induction sched arbitrary: s)
  case Nil
  then show ?case by simp
next
  case (Cons i sched)
  let ?r = "stop_returns lib (delivered sched)"
  show ?case
  proof (cases i)
    case (Ev d)
    with Cons.prems have n: "\<not> is_target cli d" by (simp split: if_splits)
    from Ev Cons.prems receive_other[OF n, of ?r s] Cons.IH[of "receive ?r cli d s"]
    show ?thesis by (simp split: if_splits)
  next
    case ChanClosed
    have d: "gor (deferred True s) = Finished"
      "received (trace (deferred True s)) = received (trace s)"
      by (simp_all add: deferred_def Let_def received_append received_cancelOnce)
    from d(1) have "gor (deferred True s) \<noteq> Ranging" by simp
    from run_left_loop[OF this, of lib cli sched] d ChanClosed Cons.prems
    show ?thesis by simp
  next
    case CallerCancel
    with Cons.prems Cons.IH[of "cancelOnce s"]
    show ?thesis by (simp add: received_cancelOnce gor_cancelOnce)
  qed
qed

lemma once_done_step: "once_done s \<Longrightarrow> once_done (step r cli i s)"
  by (cases i) (auto simp: cancelOnce_def receive_def deferred_def Let_def split: prod.splits)

lemma once_done_run: "once_done s \<Longrightarrow> once_done (run lib cli sched s)"
  by (induction sched arbitrary: s) (auto intro: once_done_step)

lemma once_done_after_cancel: "CallerCancel \<in> set sched \<Longrightarrow> once_done (run lib cli sched s)"
proof (induction sched arbitrary: s)
  case Nil
  then show ?case by simp
next
  case (Cons i sched)
  show ?case
  proof (cases "i = CallerCancel")
    case True
    then show ?thesis by (simp add: once_done_run once_done_cancelOnce)
  next
    case False
    with Cons show ?thesis by simp
  qed
qed

lemma delivered_then_cancel: "delivered (sched @ [CallerCancel]) = delivered sched"
  by (induction sched rule: delivered.induct) auto

lemma run_then_cancel:
  "run lib cli (sched @ [CallerCancel]) s = cancelOnce (run lib cli sched s)"
  by (induction sched arbitrary: s) (auto simp: delivered_then_cancel)

lemma cancelOnce_noop: "once_done s \<Longrightarrow> cancelOnce s = s"
  by (simp add: cancelOnce_def)

lemma guarded_append:
  "guarded b (xs @ ys) = (guarded b xs \<and> guarded (b \<or> Stop \<in> set xs) ys)"
  by (induction b xs rule: guarded.induct) auto

lemma guarded_logs: "only_logs as \<Longrightarrow> guarded b as \<and> Stop \<notin> set as"
  by (induction b as rule: guarded.induct) (auto simp: only_logs_def)

lemma order_inv_cancelOnce: "order_inv s \<Longrightarrow> order_inv (cancelOnce s)"
  by (auto simp: order_inv_def cancelOnce_def guarded_append)

lemma order_inv_deferred: "order_inv s \<Longrightarrow> order_inv (deferred r s)"
  by (auto simp: order_inv_def deferred_def cancelOnce_def guarded_append Let_def)

lemma order_inv_logs:
  "order_inv s \<Longrightarrow> only_logs as \<Longrightarrow> order_inv (s\<lparr>trace := trace s @ Recv d # as\<rparr>)"
  by (auto simp: order_inv_def guarded_append guarded_logs)

lemma order_inv_receive: "order_inv s \<Longrightarrow> order_inv (receive r cli d s)"
  using loop_body_logs[of cli d]
  by (auto simp: receive_def Let_def split: prod.splits
      intro!: order_inv_deferred order_inv_logs)

lemma order_inv_step: "order_inv s \<Longrightarrow> order_inv (step r cli i s)"
  by (cases i) (auto intro!: order_inv_cancelOnce order_inv_receive order_inv_deferred)

lemma order_inv_run: "order_inv s \<Longrightarrow> order_inv (run lib cli sched s)"
  by (induction sched arbitrary: s) (auto intro: order_inv_step)

lemma order_inv_fresh: "order_inv fresh"
  by (simp add: order_inv_def fresh_def)

lemma run_single_event:
  "gor (run lib cli [Ev gotDev] fresh) = (if is_target cli gotDev then Finished else Ranging)"
  using receive_target[of cli gotDev True fresh] receive_other[of cli gotDev True fresh]
  by (simp add: fresh_def stop_returns_def)

lemma nib1: "unat (drop_bit 4 (c::byte)) < 16"
proof -
  have "unat c < 256" using unsigned_less[of c, where 'a=nat] by simp
  moreover have "unat (drop_bit 4 c) = unat c div 16"
    unfolding unat_drop_bit_eq by (simp add: drop_bit_eq_div)
  ultimately show ?thesis by simp
qed

lemma nib2: "unat ((c::byte) AND 15) < 16"
proof -
  have "c AND 15 = c AND mask 4" by (simp add: mask_eq_exp_minus_1)
  moreover have "unat (c AND mask 4) < 2 ^ 4"
    using take_bit_nat_less_exp[of 4 "unat c"]
    by (simp add: unsigned_and_eq  unsigned_take_bit_eq flip: take_bit_eq_mask)
  ultimately show ?thesis by simp
qed

lemma up_hex: "k < 16 \<Longrightarrow> to_upper (''0123456789ABCDEF'' ! k) = ''0123456789ABCDEF'' ! k"
  by (auto simp: less_Suc_eq numeral_eq_Suc to_upper_def)

lemma to_upper_hexDigit: "unat n < 16 \<Longrightarrow> to_upper (hexDigit n) = hexDigit n"
  unfolding hexDigit_def by (rule up_hex)

lemma to_upper_hexOctet: "map to_upper (hexOctet c) = hexOctet c"
  by (simp add: hexOctet_def to_upper_hexDigit nib1 nib2)

lemma to_upper_colon: "to_upper CHR '':'' = CHR '':''"
  by (simp add: to_upper_def)

lemma to_upper_MAC_String: "map to_upper (MAC_String m) = MAC_String m"
  by (cases m) (simp add: to_upper_hexOctet to_upper_colon)

section \<open>The discovery scanner\<close>

text \<open>
  What holds of a run in which the delivered devices contain the target address exactly
  once, whatever the library's stop function does: the goroutine receives the devices
  up to the target and none after it, the stop function is entered exactly once, and
  \<^verbatim>\<open>done\<close> is closed once if the goroutine has returned and not at all otherwise.
\<close>

lemma discover_match_receives_and_stops_once:
  assumes "length (filter (is_target cli) (delivered sched)) = 1"
  shows "received (trace (run lib cli sched fresh)) =
           takeWhile (\<lambda>d. \<not> is_target cli d) (delivered sched) @
           filter (is_target cli) (delivered sched) \<and>
         stops (run lib cli sched fresh) = 1 \<and>
         gor (run lib cli sched fresh) \<noteq> Ranging \<and>
         closes (run lib cli sched fresh) =
           (if gor (run lib cli sched fresh) = Finished then 1 else 0)"
proof -
  from assms obtain t where t: "filter (is_target cli) (delivered sched) = [t]"
    by (cases "filter (is_target cli) (delivered sched)") auto
  have g: "gor fresh = Ranging" by (simp add: fresh_def)
  from t have n: "filter (is_target cli) (delivered sched) \<noteq> []" by simp
  from run_until_target[OF g n, of lib] t
  have r: "received (trace (run lib cli sched fresh)) =
       takeWhile (\<lambda>d. \<not> is_target cli d) (delivered sched) @ [t]"
    "gor (run lib cli sched fresh) \<noteq> Ranging"
    by (simp_all add: fresh_def)
  from r t gate_inv_from_fresh[of lib cli sched] show ?thesis by (simp add: gate_inv_def)
qed

text \<open>
  When the stop function returns (nothing is pending after the target, or the library
  lets it return), the goroutine returns and \<^verbatim>\<open>done\<close> is closed exactly once. When
  it does not return and no caller has used the once-guard, the goroutine stays in its
  deferred \<^verbatim>\<open>cancelOnce()\<close> and \<^verbatim>\<open>done\<close> is never closed.
\<close>

lemma discover_match_when_stop_returns:
  assumes "length (filter (is_target cli) (delivered sched)) = 1"
    and "stop_returns lib (tl (dropWhile (\<lambda>d. \<not> is_target cli d) (delivered sched)))"
  shows "gor (run lib cli sched fresh) = Finished \<and>
         received (trace (run lib cli sched fresh)) =
           takeWhile (\<lambda>d. \<not> is_target cli d) (delivered sched) @
           filter (is_target cli) (delivered sched) \<and>
         closes (run lib cli sched fresh) = 1 \<and>
         stops (run lib cli sched fresh) = 1"
proof -
  have g: "gor fresh = Ranging" by (simp add: fresh_def)
  from assms(1) have n: "filter (is_target cli) (delivered sched) \<noteq> []" by auto
  from run_until_target[OF g n, of lib] assms(2)
  have "gor (run lib cli sched fresh) = Finished" by simp
  with discover_match_receives_and_stops_once[OF assms(1), of lib] show ?thesis by simp
qed

lemma discover_match_when_stop_blocks:
  assumes "length (filter (is_target cli) (delivered sched)) = 1"
    and "\<not> stop_returns lib (tl (dropWhile (\<lambda>d. \<not> is_target cli d) (delivered sched)))"
    and "CallerCancel \<notin> set sched"
  shows "gor (run lib cli sched fresh) = Stuck \<and>
         closes (run lib cli sched fresh) = 0 \<and>
         stops (run lib cli sched fresh) = 1"
proof -
  have g: "gor fresh = Ranging" "\<not> once_done fresh" by (simp_all add: fresh_def)
  from assms(1) have n: "filter (is_target cli) (delivered sched) \<noteq> []" by auto
  from run_until_target[OF g(1) n, of lib] assms(2,3) g(2)
  have "gor (run lib cli sched fresh) = Stuck" by simp
  with discover_match_receives_and_stops_once[OF assms(1), of lib] show ?thesis by simp
qed

text \<open>
  C1. The claim is that, when the delivered devices contain the target address exactly
  once, the goroutine stops receiving at the match, \<^verbatim>\<open>done\<close> is closed exactly once
  and the stop function runs exactly once, whatever was delivered before or after the
  target. The run below delivers the target and has two more devices pending, with a
  library whose stop function does not return while they are pending: the goroutine
  stops receiving at the match and enters the stop function once, but it never leaves
  the deferred \<^verbatim>\<open>cancelOnce()\<close>, so \<^verbatim>\<open>close(done)\<close> is never reached.
\<close>

theorem match_before_pending_devices_never_closes_done:
  "length (filter (is_target sample_cli) (delivered pending_schedule)) = 1 \<and>
   received (trace (run returns_below_two sample_cli pending_schedule fresh)) =
     [sample_peer ''AA:BB:CC:DD:EE:FF''] \<and>
   stops (run returns_below_two sample_cli pending_schedule fresh) = 1 \<and>
   gor (run returns_below_two sample_cli pending_schedule fresh) = Stuck \<and>
   closes (run returns_below_two sample_cli pending_schedule fresh) = 0"
  by code_simp

text \<open>
  C2. When the cancel capability is invoked \<open>N > 1\<close> times by the caller, at any points
  of the run of the goroutine (which invokes it once more when it leaves its loop), the
  stop function runs exactly once; an invocation that comes after another one, of the
  caller or of the goroutine, changes nothing.
\<close>

theorem cancel_capability_stops_once:
  assumes "count_list sched CallerCancel = N" and "1 < N"
  shows "stops (run lib cli sched fresh) = 1 \<and>
         (\<forall>pre post. sched = pre @ CallerCancel # post \<and>
              (CallerCancel \<in> set pre \<or> gor (run lib cli pre fresh) = Finished \<or>
               gor (run lib cli pre fresh) = Stuck) \<longrightarrow>
            run lib cli (pre @ [CallerCancel]) fresh = run lib cli pre fresh)"
proof -
  from assms have "count_list sched CallerCancel \<noteq> 0" by simp
  then have "CallerCancel \<in> set sched" by (simp add: count_list_0_iff)
  then have "once_done (run lib cli sched fresh)" by (rule once_done_after_cancel)
  with gate_inv_from_fresh[of lib cli sched]
  have one: "stops (run lib cli sched fresh) = 1" by (simp add: gate_inv_def)
  have "once_done (run lib cli pre fresh)"
    if "CallerCancel \<in> set pre \<or> gor (run lib cli pre fresh) = Finished \<or>
        gor (run lib cli pre fresh) = Stuck" for pre
    using that once_done_after_cancel[of pre lib cli fresh] gate_inv_from_fresh[of lib cli pre]
    by (auto simp: gate_inv_def)
  with one show ?thesis by (simp add: run_then_cancel cancelOnce_noop)
qed

theorem cancel_capability_stops_once_witness:
  "count_list cancel_schedule CallerCancel = 3 \<and> (1::nat) < 3 \<and>
   stops (run returns_below_two sample_cli cancel_schedule fresh) = 1 \<and>
   run returns_below_two sample_cli
     ([CallerCancel, Ev (sample_peer ''11:22:33:44:55:66'')] @ [CallerCancel]) fresh =
     run returns_below_two sample_cli
       [CallerCancel, Ev (sample_peer ''11:22:33:44:55:66'')] fresh"
proof -
  have h: "count_list cancel_schedule CallerCancel = 3" by code_simp
  have l: "(1::nat) < 3" by simp
  have s: "cancel_schedule =
      [CallerCancel, Ev (sample_peer ''11:22:33:44:55:66'')] @ CallerCancel #
      [ChanClosed, CallerCancel]"
    by (simp add: cancel_schedule_def)
  have m: "CallerCancel \<in> set [CallerCancel, Ev (sample_peer ''11:22:33:44:55:66'')]" by simp
  from cancel_capability_stops_once[OF h l, of returns_below_two sample_cli] s m h l
  show ?thesis by blast
qed

text \<open>
  C8. When no device that the channel delivers contains the target address and the
  channel is closed, the goroutine has received every delivered device and \<^verbatim>\<open>done\<close>
  is closed exactly once in the whole run.
\<close>

theorem discover_done_when_stream_closed:
  assumes "\<forall>d \<in> set (delivered sched). \<not> is_target cli d" and "ChanClosed \<in> set sched"
  shows "gor (run lib cli sched fresh) = Finished \<and>
         received (trace (run lib cli sched fresh)) = delivered sched \<and>
         closes (run lib cli sched fresh) = 1"
proof -
  from assms(1) have "filter (is_target cli) (delivered sched) = []"
    by (simp add: filter_empty_conv)
  moreover have "gor fresh = Ranging" by (simp add: fresh_def)
  ultimately have r: "gor (run lib cli sched fresh) = Finished"
    "received (trace (run lib cli sched fresh)) = delivered sched"
    using run_until_closed[of fresh cli sched lib] assms(2) by (simp_all add: fresh_def)
  from r gate_inv_from_fresh[of lib cli sched] show ?thesis by (simp add: gate_inv_def)
qed

theorem discover_done_when_stream_closed_witness:
  "list_all (\<lambda>d. \<not> is_target sample_cli d) (delivered closed_schedule) \<and>
   ChanClosed \<in> set closed_schedule \<and>
   gor (run returns_below_two sample_cli closed_schedule fresh) = Finished \<and>
   received (trace (run returns_below_two sample_cli closed_schedule fresh)) =
     [sample_peer ''11:22:33:44:55:66'', broken_peer, sample_peer ''77:88:99:AA:BB:CC''] \<and>
   closes (run returns_below_two sample_cli closed_schedule fresh) = 1"
proof -
  have a: "list_all (\<lambda>d. \<not> is_target sample_cli d) (delivered closed_schedule)"
    by code_simp
  then have h: "\<forall>d \<in> set (delivered closed_schedule). \<not> is_target sample_cli d"
    by (simp add: list_all_iff)
  have c: "ChanClosed \<in> set closed_schedule" by (simp add: closed_schedule_def)
  have e: "delivered closed_schedule =
     [sample_peer ''11:22:33:44:55:66'', broken_peer, sample_peer ''77:88:99:AA:BB:CC'']"
    by (simp add: closed_schedule_def)
  from discover_done_when_stream_closed[OF h c, of returns_below_two, unfolded e] a c
  show ?thesis by blast
qed

text \<open>
  C9. A device whose handle cannot be created, or whose address cannot be read, is
  received, the error is logged at trace level, and the goroutine goes on: it is still
  in its loop, the once-guard is as it was, the stop function has not run, \<^verbatim>\<open>done\<close>
  is not closed because of it, and the next device is received.
\<close>

theorem resolution_error_is_skipped:
  assumes "NewDevice1 gotDev = Inl e \<or> (\<exists>d. NewDevice1 gotDev = Inr d \<and> GetAddress d = Inl e)"
    and "gor s = Ranging"
  shows "gor (step r cli (Ev gotDev) s) = Ranging \<and>
         once_done (step r cli (Ev gotDev) s) = once_done s \<and>
         trace (step r cli (Ev gotDev) s) =
           trace s @
           [Recv gotDev,
            Log TraceLevel (''scanned device'' @ Path gotDev) None [],
            Log TraceLevel
              (case NewDevice1 gotDev of
                 Inl x \<Rightarrow> ''create device by dbus path''
               | Inr d \<Rightarrow> ''get device address failed'')
              (Some e) []] \<and>
         stops (step r cli (Ev gotDev) s) = stops s \<and>
         closes (step r cli (Ev gotDev) s) = closes s \<and>
         received (trace (run lib cli [Ev gotDev, Ev nxt] s)) = received (trace s) @ [gotDev, nxt]"
proof -
  define logs where "logs =
    [Log TraceLevel (''scanned device'' @ Path gotDev) None [],
      Log TraceLevel
        (case NewDevice1 gotDev of
           Inl x \<Rightarrow> ''create device by dbus path''
         | Inr d \<Rightarrow> ''get device address failed'')
        (Some e) []]"
  from assms(1) have lb: "loop_body cli gotDev = (logs, False)"
    by (auto simp: loop_body_def Let_def logs_def)
  define s' where "s' = s\<lparr>trace := trace s @ Recv gotDev # logs\<rparr>"
  have tr: "step q cli (Ev gotDev) s = s'" for q
    using assms(2) lb by (simp add: receive_def Let_def s'_def)
  from assms(2) have g': "gor s' = Ranging" by (simp add: s'_def)
  have c1: "gor (step r cli (Ev gotDev) s) = Ranging"
    unfolding tr by (rule g')
  have c2: "once_done (step r cli (Ev gotDev) s) = once_done s"
    unfolding tr by (simp add: s'_def)
  have c3: "trace (step r cli (Ev gotDev) s) =
           trace s @
           [Recv gotDev,
            Log TraceLevel (''scanned device'' @ Path gotDev) None [],
            Log TraceLevel
              (case NewDevice1 gotDev of
                 Inl x \<Rightarrow> ''create device by dbus path''
               | Inr d \<Rightarrow> ''get device address failed'')
              (Some e) []]"
    unfolding tr by (simp add: s'_def logs_def)
  have c4: "stops (step r cli (Ev gotDev) s) = stops s"
    unfolding tr by (simp add: s'_def stops_def logs_def)
  have c5: "closes (step r cli (Ev gotDev) s) = closes s"
    unfolding tr by (simp add: s'_def closes_def logs_def)
  have n: "received (trace (receive q cli nxt s')) = received (trace s') @ [nxt]" for q
    using receive_target[of cli nxt q s'] receive_other[of cli nxt q s']
    by (cases "is_target cli nxt") simp_all
  have p: "received (trace s') = received (trace s) @ [gotDev]"
    by (simp add: s'_def received_append logs_def)
  have "run lib cli [Ev gotDev, Ev nxt] s =
      step (stop_returns lib (delivered [])) cli (Ev nxt)
        (step (stop_returns lib (delivered [Ev nxt])) cli (Ev gotDev) s)"
    by (simp del: step.simps)
  also have "\<dots> = receive (stop_returns lib (delivered [])) cli nxt s'"
    unfolding tr using g' by simp
  finally have c6: "received (trace (run lib cli [Ev gotDev, Ev nxt] s)) =
      received (trace s) @ [gotDev, nxt]"
    using n p by simp
  show ?thesis by (intro conjI c1 c2 c3 c4 c5 c6)
qed

theorem resolution_error_is_skipped_witness:
  "NewDevice1 broken_peer = Inl (Err ''no such object'') \<and> gor fresh = Ranging \<and>
   gor (step True sample_cli (Ev broken_peer) fresh) = Ranging \<and>
   stops (step True sample_cli (Ev broken_peer) fresh) = 0 \<and>
   closes (step True sample_cli (Ev broken_peer) fresh) = 0 \<and>
   received (trace (run returns_below_two sample_cli
       [Ev broken_peer, Ev (sample_peer ''AA:BB:CC:DD:EE:FF'')] fresh)) =
     [broken_peer, sample_peer ''AA:BB:CC:DD:EE:FF'']"
proof -
  have h: "NewDevice1 broken_peer = Inl (Err ''no such object'')"
    by (simp add: broken_peer_def)
  have g: "gor fresh = Ranging" by (simp add: fresh_def)
  have z: "stops fresh = 0" "closes fresh = 0" "received (trace fresh) = []"
    by (simp_all add: stops_def closes_def fresh_def)
  from resolution_error_is_skipped[OF disjI1[OF h] g,
      of True sample_cli returns_below_two "sample_peer ''AA:BB:CC:DD:EE:FF''"]
  show ?thesis unfolding z using h g by (simp del: step.simps run.simps)
qed

text \<open>
  C10. In every run, whenever \<^verbatim>\<open>done\<close> is closed the stop function has run before:
  every \<open>CloseDone\<close> of the trace has a \<open>Stop\<close> in front of it, on the path of the
  match and on the path of the closed channel alike.
\<close>

theorem stop_precedes_close_done:
  assumes "trace (run lib cli sched fresh) = xs @ CloseDone # ys"
  shows "Stop \<in> set xs"
proof -
  have "guarded False (trace (run lib cli sched fresh))"
    using order_inv_run[OF order_inv_fresh, of lib cli sched] by (simp add: order_inv_def)
  with assms show ?thesis by (simp add: guarded_append)
qed

theorem stop_precedes_close_done_witness:
  "trace (run returns_below_two sample_cli [ChanClosed] fresh) =
     [Log InfoLevel ''discovery started'' None [], Stop] @ CloseDone # [] \<and>
   Stop \<in> set [Log InfoLevel ''discovery started'' None [], Stop]"
proof -
  have h: "trace (run returns_below_two sample_cli [ChanClosed] fresh) =
     [Log InfoLevel ''discovery started'' None [], Stop] @ CloseDone # []"
    by (simp add: fresh_def deferred_def cancelOnce_def)
  from stop_precedes_close_done[OF h] h show ?thesis by blast
qed

text \<open>
  C7. The address of a discovered device is compared with the canonical string of the
  target by equality of strings, which distinguishes the case of the hex letters: among
  the addresses that denote the target when case is ignored, the one written with
  upper-case letters is a match and every other one is not.
\<close>

theorem match_is_exact_string_equality:
  assumes "resolved_address gotDev = Some a"
    and "same_address a (MAC_String (deviceMAC cli))"
  shows "is_target cli gotDev = (a = MAC_String (deviceMAC cli)) \<and>
         (gor (run lib cli [Ev gotDev] fresh) = Finished) = (map to_upper a = a)"
proof -
  from assms(2) have up: "map to_upper a = MAC_String (deviceMAC cli)"
    by (simp add: same_address_def to_upper_MAC_String)
  from assms(1) have t: "is_target cli gotDev = (a = MAC_String (deviceMAC cli))"
    by (simp add: is_target_def)
  from up have "(a = MAC_String (deviceMAC cli)) = (map to_upper a = a)" by auto
  with t run_single_event[of lib cli gotDev] show ?thesis
    by (simp del: run.simps)
qed

theorem match_is_exact_string_equality_witness:
  "resolved_address (sample_peer ''AA:BB:CC:DD:EE:FF'') = Some ''AA:BB:CC:DD:EE:FF'' \<and>
   same_address ''AA:BB:CC:DD:EE:FF'' (MAC_String (deviceMAC sample_cli)) \<and>
   is_target sample_cli (sample_peer ''AA:BB:CC:DD:EE:FF'') \<and>
   gor (run returns_below_two sample_cli [Ev (sample_peer ''AA:BB:CC:DD:EE:FF'')] fresh) =
     Finished"
proof -
  have h: "resolved_address (sample_peer ''AA:BB:CC:DD:EE:FF'') = Some ''AA:BB:CC:DD:EE:FF''"
    by (simp add: resolved_address_def sample_peer_def sample_device_def)
  have m: "MAC_String (deviceMAC sample_cli) = ''AA:BB:CC:DD:EE:FF''"
    by (simp add: sample_cli_def hexOctet_def hexDigit_def)
  have a: "same_address ''AA:BB:CC:DD:EE:FF'' (MAC_String (deviceMAC sample_cli))"
    by (simp add: m same_address_def)
  have u: "map to_upper ''AA:BB:CC:DD:EE:FF'' = ''AA:BB:CC:DD:EE:FF''"
    by code_simp
  from match_is_exact_string_equality[OF h a, of returns_below_two] h a m u show ?thesis
    by (simp del: run.simps)
qed

theorem lower_case_address_counterexample:
  "resolved_address (sample_peer ''aa:bb:cc:dd:ee:ff'') = Some ''aa:bb:cc:dd:ee:ff'' \<and>
   same_address ''aa:bb:cc:dd:ee:ff'' (MAC_String (deviceMAC sample_cli)) \<and>
   \<not> is_target sample_cli (sample_peer ''aa:bb:cc:dd:ee:ff'') \<and>
   gor (run returns_below_two sample_cli [Ev (sample_peer ''aa:bb:cc:dd:ee:ff'')] fresh) =
     Ranging"
  by code_simp

section \<open>Lemmas about the connection attempts\<close>

lemma connect_acts:
  "attempts (fst (Bctl_connect cli aid nd)) = 0 \<and> retry_messages (fst (Bctl_connect cli aid nd)) = 0"
  by (simp add: Bctl_connect_def Let_def split: sum.splits option.splits)

lemma attempts_append: "attempts (xs @ ys) = attempts xs + attempts ys"
  by (induction xs rule: attempts.induct) auto

lemma retry_messages_append: "retry_messages (xs @ ys) = retry_messages xs + retry_messages ys"
  by (induction xs rule: retry_messages.induct) auto

lemma select_go_ready: "ready \<noteq> [] \<Longrightarrow> \<exists>c \<in> set ready. select_go ready n arr = Some c"
  by (simp add: select_go_def)

lemma select_go_two: "select_go [a, b] n arr = Some (if n mod 2 = 0 then a else b)"
proof -
  have l: "length [a, b] = 2" by simp
  have "n mod 2 = 0 \<or> n mod 2 = 1" by arith
  then have "[a, b] ! (n mod 2) = (if n mod 2 = 0 then a else b)"
    by (elim disjE) (simp_all only: nth_Cons_0 One_nat_def nth_Cons_Suc if_True if_False, simp_all)
  then show ?thesis unfolding select_go_def l by simp
qed

lemma connect_loop_cancelled:
  assumes "select_go ((if ctx_done e then [CtxDone] else []) @
                        (if tick_ready e then [TickC] else []) @
                        (if tok then [OnceC] else [])) (pick e) (arrival e) = Some CtxDone"
  shows "connect_loop cli cerr aid tok (e # es) ds tr =
           (Returned (Some cerr), tr @ [Selected CtxDone])"
  using assms by simp

lemma select_fires:
  assumes "\<not> ctx_done e" and "tok \<or> tick_ready e \<or> arrival e = Some TickC"
  shows "\<exists>c. select_go ((if ctx_done e then [CtxDone] else []) @
                        (if tick_ready e then [TickC] else []) @
                        (if tok then [OnceC] else [])) (pick e) (arrival e) = Some c \<and>
             (c = TickC \<or> c = OnceC) \<and> (c = OnceC \<longrightarrow> tok) \<and> (\<not> tick_ready e \<and> tok \<longrightarrow> c = OnceC)"
proof (cases "tick_ready e \<or> tok")
  case True
  let ?ready = "(if ctx_done e then [CtxDone] else []) @
                        (if tick_ready e then [TickC] else []) @
                        (if tok then [OnceC] else [])"
  from True have "?ready \<noteq> []" by auto
  from select_go_ready[OF this, of "pick e" "arrival e"]
  obtain c where "c \<in> set ?ready" "select_go ?ready (pick e) (arrival e) = Some c" by blast
  with assms(1) show ?thesis by (auto split: if_splits)
next
  case False
  with assms show ?thesis by (simp add: select_go_def)
qed

lemma connect_loop_attempt:
  assumes "select_go ((if ctx_done e then [CtxDone] else []) @
                        (if tick_ready e then [TickC] else []) @
                        (if tok then [OnceC] else [])) (pick e) (arrival e) = Some c"
    and "c = TickC \<or> c = OnceC"
  shows "connect_loop cli cerr aid tok (e # es) (nd # ds) tr =
     (case snd (Bctl_connect cli aid nd) of
        Some er \<Rightarrow>
          connect_loop cli cerr aid (tok \<and> c \<noteq> OnceC) es ds
            (tr @ [Selected c, Attempt aid] @ fst (Bctl_connect cli aid nd) @
             [Log InfoLevel ''try to connect'' (Some er) [(''retry'', retryInterval)]])
      | None \<Rightarrow> (Returned None, tr @ [Selected c, Attempt aid] @ fst (Bctl_connect cli aid nd)))"
  using assms by (auto simp: Let_def split: prod.splits option.splits)

lemma connect_loop_prefix: "\<exists>tl. snd (connect_loop cli cerr aid tok es ds tr) = tr @ tl"
proof (induction es arbitrary: tok ds tr)
  case Nil
  then show ?case by simp
next
  case (Cons e es)
  let ?sel = "select_go ((if ctx_done e then [CtxDone] else []) @
                        (if tick_ready e then [TickC] else []) @
                        (if tok then [OnceC] else [])) (pick e) (arrival e)"
  consider "?sel = None" | "?sel = Some DiscoveryDone" | "?sel = Some CtxDone"
    | c where "?sel = Some c" "c = TickC \<or> c = OnceC"
    by (cases ?sel) (auto intro: chan.exhaust)
  then show ?case
  proof cases
    case 4
    show ?thesis
    proof (cases ds)
      case Nil
      with 4 show ?thesis by auto
    next
      case (Cons nd ds')
      show ?thesis
      proof (cases "snd (Bctl_connect cli aid nd)")
        case None
        with Cons connect_loop_attempt[OF 4, of cli cerr aid es nd ds' tr]
        show ?thesis by simp
      next
        case (Some er)
        from Cons.IH[of "tok \<and> c \<noteq> OnceC" ds' "tr @ [Selected c, Attempt aid] @ fst (Bctl_connect cli aid nd) @
             [Log InfoLevel ''try to connect'' (Some er) [(''retry'', retryInterval)]]"]
          Some Cons connect_loop_attempt[OF 4, of cli cerr aid es nd ds' tr]
        show ?thesis by auto
      qed
    qed
  qed simp_all
qed

lemma connect_loop_succeeds:
  assumes "\<forall>nd \<in> set fails. snd (Bctl_connect cli aid nd) \<noteq> None"
    and "snd (Bctl_connect cli aid ok) = None"
    and "length es = length fails"
    and "\<forall>e \<in> set es. ticking e"
    and "\<not> ctx_done e0"
    and "tok \<or> tick_ready e0 \<or> arrival e0 = Some TickC"
  shows "fst (connect_loop cli cerr aid tok (e0 # es @ later) (fails @ ok # rest) tr) =
           Returned None \<and>
         attempts (snd (connect_loop cli cerr aid tok (e0 # es @ later) (fails @ ok # rest) tr)) =
           attempts tr + length fails + 1 \<and>
         retry_messages (snd (connect_loop cli cerr aid tok (e0 # es @ later) (fails @ ok # rest) tr)) =
           retry_messages tr + length fails"
  using assms
proof (induction fails arbitrary: tok e0 es tr)
  case Nil
  from select_fires[OF Nil.prems(5,6)] obtain c where
    c: "select_go ((if ctx_done e0 then [CtxDone] else []) @
                        (if tick_ready e0 then [TickC] else []) @
                        (if tok then [OnceC] else [])) (pick e0) (arrival e0) = Some c"
       "c = TickC \<or> c = OnceC" by blast
  from Nil.prems connect_loop_attempt[OF c, of cli cerr aid later ok rest tr]
  show ?case by (simp add: attempts_append retry_messages_append connect_acts)
next
  case (Cons f fails)
  from Cons.prems(3) obtain e1 es' where es: "es = e1 # es'" by (cases es) auto
  from select_fires[OF Cons.prems(5,6)] obtain c where
    c: "select_go ((if ctx_done e0 then [CtxDone] else []) @
                        (if tick_ready e0 then [TickC] else []) @
                        (if tok then [OnceC] else [])) (pick e0) (arrival e0) = Some c"
       "c = TickC \<or> c = OnceC" by blast
  from Cons.prems(1) obtain er where er: "snd (Bctl_connect cli aid f) = Some er" by auto
  let ?tr = "tr @ [Selected c, Attempt aid] @ fst (Bctl_connect cli aid f) @
             [Log InfoLevel ''try to connect'' (Some er) [(''retry'', retryInterval)]]"
  have step: "connect_loop cli cerr aid tok (e0 # es @ later) ((f # fails) @ ok # rest) tr =
      connect_loop cli cerr aid (tok \<and> c \<noteq> OnceC) (e1 # es' @ later) (fails @ ok # rest) ?tr"
    using connect_loop_attempt[OF c, of cli cerr aid "es @ later" f "fails @ ok # rest" tr] er es
    by simp
  from Cons.prems es have t1: "ticking e1" "\<forall>e \<in> set es'. ticking e" "length es' = length fails"
    by auto
  from t1(1) have p: "\<not> ctx_done e1" "(tok \<and> c \<noteq> OnceC) \<or> tick_ready e1 \<or> arrival e1 = Some TickC"
    by (auto simp: ticking_def)
  from Cons.prems(1) have f': "\<forall>nd \<in> set fails. snd (Bctl_connect cli aid nd) \<noteq> None" by simp
  from Cons.IH[OF f' Cons.prems(2) t1(3) t1(2) p, of ?tr]
  show ?case unfolding step
    by (simp add: attempts_append retry_messages_append connect_acts)
qed

lemma connect_loop_first:
  assumes "\<not> ctx_done e0" and "\<not> tick_ready e0"
  shows "take 2 (snd (connect_loop cli cerr aid True (e0 # es) (nd # ds) [])) =
           [Selected OnceC, Attempt aid]"
proof -
  from select_fires[OF assms(1), of True] assms(2)
  have c: "select_go ((if ctx_done e0 then [CtxDone] else []) @
                        (if tick_ready e0 then [TickC] else []) @
                        (if True then [OnceC] else [])) (pick e0) (arrival e0) = Some OnceC"
    "OnceC = TickC \<or> OnceC = OnceC"
    by auto
  show ?thesis
  proof (cases "snd (Bctl_connect cli aid nd)")
    case None
    with connect_loop_attempt[OF c, of cli cerr aid es nd ds "[]"] show ?thesis by simp
  next
    case (Some er)
    let ?tr = "[Selected OnceC, Attempt aid] @ fst (Bctl_connect cli aid nd) @
             [Log InfoLevel ''try to connect'' (Some er) [(''retry'', retryInterval)]]"
    from connect_loop_prefix[of cli cerr aid False es ds ?tr] obtain tl where
      "snd (connect_loop cli cerr aid False es ds ?tr) = ?tr @ tl" by blast
    with Some connect_loop_attempt[OF c, of cli cerr aid es nd ds "[]"] show ?thesis by simp
  qed
qed

section \<open>The connection orchestrator and the wait barrier\<close>

text \<open>
  C3. When the adapter identifier is available, the first \<open>K\<close> attempts fail and the
  next one succeeds, and the \<^verbatim>\<open>select\<close> is given no cancellation and a tick for
  each attempt after the first, \<^verbatim>\<open>Connect\<close> makes exactly \<open>K + 1\<close> attempts, logs
  exactly \<open>K\<close> retry messages and returns \<^verbatim>\<open>nil\<close>. The first attempt needs no tick:
  with no tick waiting, the first \<^verbatim>\<open>select\<close> takes the token of \<^verbatim>\<open>once\<close>.
\<close>

theorem connect_retries_until_success:
  assumes "GetAdapterID (adapter cli) = Inr aid"
    and "length fails = K"
    and "\<forall>nd \<in> set fails. snd (Bctl_connect cli aid nd) \<noteq> None"
    and "snd (Bctl_connect cli aid ok) = None"
    and "\<not> ctx_done e0"
    and "length es = K"
    and "\<forall>e \<in> set es. ticking e"
  shows "fst (Bctl_Connect cli cerr (e0 # es @ later) (fails @ ok # rest)) = Returned None \<and>
         attempts (snd (Bctl_Connect cli cerr (e0 # es @ later) (fails @ ok # rest))) = K + 1 \<and>
         retry_messages (snd (Bctl_Connect cli cerr (e0 # es @ later) (fails @ ok # rest))) = K \<and>
         (\<not> tick_ready e0 \<longrightarrow>
            take 2 (snd (Bctl_Connect cli cerr (e0 # es @ later) (fails @ ok # rest))) =
              [Selected OnceC, Attempt aid])"
proof -
  from assms(2,6) have l: "length es = length fails" by simp
  have t: "True \<or> tick_ready e0 \<or> arrival e0 = Some TickC" by simp
  have first: "take 2 (snd (connect_loop cli cerr aid True (e0 # es @ later) (fails @ ok # rest) [])) =
           [Selected OnceC, Attempt aid]" if "\<not> tick_ready e0"
    using connect_loop_first[OF assms(5) that, of cli cerr aid "es @ later"]
    by (cases fails) simp_all
  from connect_loop_succeeds[OF assms(3,4) l assms(7,5) t, of cerr later rest "[]"] first assms(1,2)
  show ?thesis by (simp add: Bctl_Connect_def)
qed

theorem connect_retries_until_success_witness:
  "GetAdapterID (adapter sample_cli) = Inr ''hci0'' \<and>
   fst (Bctl_Connect sample_cli canceled [quiet_env, tick_env, tick_env]
          [Inr busy_device, Inr unreachable_device, Inr paired_device]) = Returned None \<and>
   attempts (snd (Bctl_Connect sample_cli canceled [quiet_env, tick_env, tick_env]
          [Inr busy_device, Inr unreachable_device, Inr paired_device])) = 3 \<and>
   retry_messages (snd (Bctl_Connect sample_cli canceled [quiet_env, tick_env, tick_env]
          [Inr busy_device, Inr unreachable_device, Inr paired_device])) = 2 \<and>
   take 2 (snd (Bctl_Connect sample_cli canceled [quiet_env, tick_env, tick_env]
          [Inr busy_device, Inr unreachable_device, Inr paired_device])) =
     [Selected OnceC, Attempt ''hci0'']"
proof -
  have a: "GetAdapterID (adapter sample_cli) = Inr ''hci0''"
    by (simp add: sample_cli_def)
  have k: "length [Inr busy_device, Inr unreachable_device] = 2" by simp
  have f: "\<forall>nd \<in> set [Inr busy_device, Inr unreachable_device].
             snd (Bctl_connect sample_cli ''hci0'' nd) \<noteq> None"
    by (simp add: Bctl_connect_def busy_device_def unreachable_device_def)
  have s: "snd (Bctl_connect sample_cli ''hci0'' (Inr paired_device)) = None"
    by (simp add: Bctl_connect_def paired_device_def)
  have c: "\<not> ctx_done quiet_env" "\<not> tick_ready quiet_env" by (simp_all add: quiet_env_def)
  have l: "length [tick_env, tick_env] = 2" by simp
  have t: "\<forall>e \<in> set [tick_env, tick_env]. ticking e"
    by (simp add: ticking_def tick_env_def)
  from connect_retries_until_success[OF a k f s c(1) l t, of canceled "[]" "[]"] a c(2)
  show ?thesis by simp
qed

text \<open>
  C4. One attempt asks for the device of the target address on the adapter, then for
  its pairing state, then sends a pair request only when the device is not paired, then
  sends a connect request; it stops at the first request that fails, and it returns
  \<^verbatim>\<open>nil\<close> exactly when the connect request was sent and succeeded.
\<close>

theorem attempt_steps_in_order:
  "calls (fst (Bctl_connect cli aid nd)) =
     CallNewDevice aid (MAC_String (deviceMAC cli)) #
     (case nd of
        Inl e \<Rightarrow> []
      | Inr d \<Rightarrow>
          CallGetPaired #
          (case GetPaired d of
             Inl e \<Rightarrow> []
           | Inr paired \<Rightarrow>
               (if paired then [] else [CallPair]) @
               (if paired \<or> Pair d = None then [CallConnect] else []))) \<and>
   (snd (Bctl_connect cli aid nd) = None) =
     (\<exists>d. nd = Inr d \<and> CallConnect \<in> set (fst (Bctl_connect cli aid nd)) \<and> Connect d = None)"
  by (auto simp: Bctl_connect_def Let_def split: sum.splits option.splits)

theorem attempt_steps_in_order_witness:
  "calls (fst (Bctl_connect sample_cli ''hci0'' (Inr paired_device))) =
     [CallNewDevice ''hci0'' ''AA:BB:CC:DD:EE:FF'', CallGetPaired, CallConnect] \<and>
   snd (Bctl_connect sample_cli ''hci0'' (Inr paired_device)) = None"
proof -
  have m: "MAC_String (deviceMAC sample_cli) = ''AA:BB:CC:DD:EE:FF''"
    by (simp add: sample_cli_def hexOctet_def hexDigit_def)
  have p: "GetPaired paired_device = Inr True" "Connect paired_device = None"
    by (simp_all add: paired_device_def)
  have r: "snd (Bctl_connect sample_cli ''hci0'' (Inr paired_device)) = None"
    by (simp add: Bctl_connect_def paired_device_def)
  from attempt_steps_in_order[of sample_cli "''hci0''" "Inr paired_device"] m p r
  show ?thesis by simp
qed

text \<open>
  C5. The context is cancelled before \<^verbatim>\<open>Connect\<close> evaluates its first \<^verbatim>\<open>select\<close>
  and no tick is waiting, and the adapter identifier has been obtained. Two cases are
  ready then, the cancellation and the token of \<^verbatim>\<open>once\<close>. If the runtime takes the
  cancellation, \<^verbatim>\<open>Connect\<close> returns the error of the context and makes no attempt. If
  it takes the token, an attempt is made. When that attempt succeeds, \<^verbatim>\<open>Connect\<close>
  returns \<^verbatim>\<open>nil\<close> after this one attempt. When it fails and the next \<^verbatim>\<open>select\<close>
  finds the context cancelled and still no tick waiting, \<^verbatim>\<open>Connect\<close> returns the
  error of the context after this one attempt.
\<close>

theorem cancelled_before_first_tick:
  assumes "GetAdapterID (adapter cli) = Inr aid"
    and "ctx_done e0" and "\<not> tick_ready e0"
  shows "(pick e0 mod 2 = 0 \<longrightarrow>
            Bctl_Connect cli cerr (e0 # es) ds = (Returned (Some cerr), [Selected CtxDone])) \<and>
         (pick e0 mod 2 = 1 \<and> snd (Bctl_connect cli aid nd) = None \<longrightarrow>
            fst (Bctl_Connect cli cerr (e0 # es) (nd # ds)) = Returned None \<and>
            attempts (snd (Bctl_Connect cli cerr (e0 # es) (nd # ds))) = 1) \<and>
         (pick e0 mod 2 = 1 \<and> snd (Bctl_connect cli aid nd) \<noteq> None \<and>
          ctx_done e1 \<and> \<not> tick_ready e1 \<longrightarrow>
            fst (Bctl_Connect cli cerr (e0 # e1 # es) (nd # ds)) = Returned (Some cerr) \<and>
            attempts (snd (Bctl_Connect cli cerr (e0 # e1 # es) (nd # ds))) = 1)"
proof -
  have s0: "select_go ((if ctx_done e0 then [CtxDone] else []) @
                       (if tick_ready e0 then [TickC] else []) @
                       (if True then [OnceC] else [])) (pick e0) (arrival e0) =
            Some (if pick e0 mod 2 = 0 then CtxDone else OnceC)"
    using assms(2,3) select_go_two[of CtxDone OnceC "pick e0" "arrival e0"] by simp
  have loop: "Bctl_Connect cli cerr xs ys = connect_loop cli cerr aid True xs ys []" for xs ys
    using assms(1) by (simp add: Bctl_Connect_def)
  have a: "Bctl_Connect cli cerr (e0 # es) ds = (Returned (Some cerr), [Selected CtxDone])"
    if "pick e0 mod 2 = 0"
  proof -
    from that s0 have "select_go ((if ctx_done e0 then [CtxDone] else []) @
                       (if tick_ready e0 then [TickC] else []) @
                       (if True then [OnceC] else [])) (pick e0) (arrival e0) = Some CtxDone"
      by simp
    from connect_loop_cancelled[OF this, of cli cerr aid es ds "[]"] loop[of "e0 # es" ds]
    show ?thesis by simp
  qed
  have c: "select_go ((if ctx_done e0 then [CtxDone] else []) @
                       (if tick_ready e0 then [TickC] else []) @
                       (if True then [OnceC] else [])) (pick e0) (arrival e0) = Some OnceC"
      "OnceC = TickC \<or> OnceC = OnceC"
    if "pick e0 mod 2 = 1"
    using that s0 by simp_all
  have b: "fst (Bctl_Connect cli cerr (e0 # es) (nd # ds)) = Returned None \<and>
            attempts (snd (Bctl_Connect cli cerr (e0 # es) (nd # ds))) = 1"
    if p: "pick e0 mod 2 = 1" and ok: "snd (Bctl_connect cli aid nd) = None"
    using connect_loop_attempt[OF c[OF p], of cli cerr aid es nd ds "[]"] ok
      loop[of "e0 # es" "nd # ds"]
    by (simp add: attempts_append connect_acts del: connect_loop.simps)
  have d: "fst (Bctl_Connect cli cerr (e0 # e1 # es) (nd # ds)) = Returned (Some cerr) \<and>
            attempts (snd (Bctl_Connect cli cerr (e0 # e1 # es) (nd # ds))) = 1"
    if p: "pick e0 mod 2 = 1" and ko: "snd (Bctl_connect cli aid nd) \<noteq> None"
      and e1: "ctx_done e1" "\<not> tick_ready e1"
  proof -
    from ko obtain er where er: "snd (Bctl_connect cli aid nd) = Some er" by auto
    have s1: "select_go ((if ctx_done e1 then [CtxDone] else []) @
                       (if tick_ready e1 then [TickC] else []) @
                       (if False then [OnceC] else [])) (pick e1) (arrival e1) = Some CtxDone"
      using e1 by (simp add: select_go_def)
    let ?tr = "[] @ [Selected OnceC, Attempt aid] @ fst (Bctl_connect cli aid nd) @
             [Log InfoLevel ''try to connect'' (Some er) [(''retry'', retryInterval)]]"
    from er connect_loop_attempt[OF c[OF p], of cli cerr aid "e1 # es" nd ds "[]"]
      loop[of "e0 # e1 # es" "nd # ds"]
    have "Bctl_Connect cli cerr (e0 # e1 # es) (nd # ds) =
          connect_loop cli cerr aid False (e1 # es) ds ?tr"
      by (simp del: connect_loop.simps)
    with connect_loop_cancelled[OF s1, of cli cerr aid es ds ?tr]
    show ?thesis by (simp add: attempts_append connect_acts del: connect_loop.simps)
  qed
  from a b d show ?thesis by blast
qed

theorem cancelled_before_first_tick_witness:
  "GetAdapterID (adapter sample_cli) = Inr ''hci0'' \<and>
   ctx_done (cancelled_env 0) \<and> ctx_done (cancelled_env 1) \<and>
   Bctl_Connect sample_cli canceled [cancelled_env 0] [Inr busy_device] =
     (Returned (Some canceled), [Selected CtxDone]) \<and>
   fst (Bctl_Connect sample_cli canceled [cancelled_env 1] [Inr paired_device]) =
     Returned None \<and>
   attempts (snd (Bctl_Connect sample_cli canceled [cancelled_env 1] [Inr paired_device])) = 1 \<and>
   fst (Bctl_Connect sample_cli canceled [cancelled_env 1, cancelled_env 0] [Inr busy_device]) =
     Returned (Some canceled) \<and>
   attempts (snd (Bctl_Connect sample_cli canceled [cancelled_env 1, cancelled_env 0]
                    [Inr busy_device])) = 1"
proof -
  have a: "GetAdapterID (adapter sample_cli) = Inr ''hci0''"
    by (simp add: sample_cli_def)
  have c: "ctx_done (cancelled_env 0)" "\<not> tick_ready (cancelled_env 0)"
    "ctx_done (cancelled_env 1)" "\<not> tick_ready (cancelled_env 1)"
    "pick (cancelled_env 0) mod 2 = 0" "pick (cancelled_env 1) mod 2 = 1"
    by (simp_all add: cancelled_env_def)
  have f: "snd (Bctl_connect sample_cli ''hci0'' (Inr busy_device)) \<noteq> None"
    by (simp add: Bctl_connect_def busy_device_def)
  have s: "snd (Bctl_connect sample_cli ''hci0'' (Inr paired_device)) = None"
    by (simp add: Bctl_connect_def paired_device_def)
  from cancelled_before_first_tick[OF a c(1,2),
      where cerr = canceled and es = "[]" and ds = "[Inr busy_device]"]
    cancelled_before_first_tick[OF a c(3,4),
      where cerr = canceled and es = "[]" and ds = "[]" and nd = "Inr paired_device"]
    cancelled_before_first_tick[OF a c(3,4),
      where cerr = canceled and es = "[]" and ds = "[]" and nd = "Inr busy_device"
        and ?e1.0 = "cancelled_env 0"]
    a c f s
  show ?thesis by simp
qed

theorem cancelled_context_attempt_counterexample:
  "ctx_done (cancelled_env 1) \<and> \<not> tick_ready (cancelled_env 1) \<and>
   attempts (snd (Bctl_Connect sample_cli canceled [cancelled_env 1] [Inr paired_device])) = 1 \<and>
   fst (Bctl_Connect sample_cli canceled [cancelled_env 1] [Inr paired_device]) = Returned None"
  by code_simp

text \<open>
  C6. \<^verbatim>\<open>Wait\<close> returns the error of the context when the context is cancelled and
  \<^verbatim>\<open>done\<close> is not closed, and \<^verbatim>\<open>nil\<close> when \<^verbatim>\<open>done\<close> is closed and the context is
  not cancelled, whether that is so when \<^verbatim>\<open>Wait\<close> is called or comes about first
  while it is blocked. When the context is cancelled and \<^verbatim>\<open>done\<close> is closed as well,
  the runtime chooses between the two ready cases and \<^verbatim>\<open>Wait\<close> returns either the
  error or \<^verbatim>\<open>nil\<close>. \<^verbatim>\<open>Wait\<close> leaves the state of the discovery as it is: it invokes
  no stop.
\<close>

theorem wait_returns:
  "snd (Bctl_Wait cerr e s) = s \<and>
   (ctx_done e \<and> CloseDone \<notin> set (trace s) \<longrightarrow>
      fst (Bctl_Wait cerr e s) = Returned (Some cerr)) \<and>
   (\<not> ctx_done e \<and> CloseDone \<in> set (trace s) \<longrightarrow>
      fst (Bctl_Wait cerr e s) = Returned None) \<and>
   (\<not> ctx_done e \<and> CloseDone \<notin> set (trace s) \<and> arrival e = Some CtxDone \<longrightarrow>
      fst (Bctl_Wait cerr e s) = Returned (Some cerr)) \<and>
   (\<not> ctx_done e \<and> CloseDone \<notin> set (trace s) \<and> arrival e = Some DiscoveryDone \<longrightarrow>
      fst (Bctl_Wait cerr e s) = Returned None) \<and>
   (ctx_done e \<and> CloseDone \<in> set (trace s) \<longrightarrow>
      fst (Bctl_Wait cerr e s) =
        (if pick e mod 2 = 0 then Returned (Some cerr) else Returned None))"
proof -
  have unchanged: "snd (Bctl_Wait cerr e s) = s"
    by (simp add: Bctl_Wait_def split: option.splits chan.splits)
  have one: "select_go [c] n arr = Some c" for c n arr
    by (simp add: select_go_def)
  have none: "select_go [] n arr = arr" for n arr
    by (simp add: select_go_def)
  have both: "fst (Bctl_Wait cerr e s) =
        (if pick e mod 2 = 0 then Returned (Some cerr) else Returned None)"
    if "ctx_done e" "CloseDone \<in> set (trace s)"
    using that select_go_two[of CtxDone DiscoveryDone "pick e" "arrival e"]
    by (simp add: Bctl_Wait_def)
  have ctx: "fst (Bctl_Wait cerr e s) = Returned (Some cerr)"
    if "ctx_done e" "CloseDone \<notin> set (trace s)"
    using that by (simp add: Bctl_Wait_def one)
  have dn: "fst (Bctl_Wait cerr e s) = Returned None"
    if "\<not> ctx_done e" "CloseDone \<in> set (trace s)"
    using that by (simp add: Bctl_Wait_def one)
  have wctx: "fst (Bctl_Wait cerr e s) = Returned (Some cerr)"
    if "\<not> ctx_done e" "CloseDone \<notin> set (trace s)" "arrival e = Some CtxDone"
    using that by (simp add: Bctl_Wait_def none)
  have wdn: "fst (Bctl_Wait cerr e s) = Returned None"
    if "\<not> ctx_done e" "CloseDone \<notin> set (trace s)" "arrival e = Some DiscoveryDone"
    using that by (simp add: Bctl_Wait_def none)
  from unchanged both ctx dn wctx wdn show ?thesis by blast
qed

theorem wait_returns_witness:
  "ctx_done (cancelled_env 0) \<and> CloseDone \<notin> set (trace fresh) \<and>
   Bctl_Wait canceled (cancelled_env 0) fresh = (Returned (Some canceled), fresh) \<and>
   \<not> ctx_done quiet_env \<and>
   CloseDone \<in> set (trace (run returns_below_two sample_cli [ChanClosed] fresh)) \<and>
   Bctl_Wait canceled quiet_env (run returns_below_two sample_cli [ChanClosed] fresh) =
     (Returned None, run returns_below_two sample_cli [ChanClosed] fresh)"
proof -
  have c: "ctx_done (cancelled_env 0)" "CloseDone \<notin> set (trace fresh)"
    by (simp_all add: cancelled_env_def fresh_def)
  have q: "\<not> ctx_done quiet_env"
    "CloseDone \<in> set (trace (run returns_below_two sample_cli [ChanClosed] fresh))"
    by (simp_all add: quiet_env_def fresh_def deferred_def cancelOnce_def)
  from wait_returns[of canceled "cancelled_env 0" fresh]
    wait_returns[of canceled quiet_env "run returns_below_two sample_cli [ChanClosed] fresh"] c q
  show ?thesis by (simp add: prod_eq_iff del: run.simps)
qed

theorem wait_both_ready_counterexample:
  "ctx_done (cancelled_env 1) \<and> ctx_done (cancelled_env 0) \<and>
   CloseDone \<in> set (trace (run returns_below_two sample_cli [ChanClosed] fresh)) \<and>
   fst (Bctl_Wait canceled (cancelled_env 1)
          (run returns_below_two sample_cli [ChanClosed] fresh)) = Returned None \<and>
   fst (Bctl_Wait canceled (cancelled_env 0)
          (run returns_below_two sample_cli [ChanClosed] fresh)) = Returned (Some canceled)"
  by code_simp

end
